theory Spec2Isabelle
  imports Complex_Main "HOL-Library.AList" "HOL-Library.Signed_Division"
begin

section \<open>Time values\<close>

text \<open>
  A \<^verbatim>\<open>time.Time\<close> is modelled as an instant on one time line, counted in nanoseconds
  from the zero value \<^verbatim>\<open>time.Time{}\<close>;
  a \<^verbatim>\<open>time.Duration\<close> is Go's signed 64-bit count of nanoseconds. \<^verbatim>\<open>Time.Sub\<close>
  saturates at the smallest and the largest duration, and \<^verbatim>\<open>Duration.Seconds\<close> is
  \<^verbatim>\<open>float64(d / Second) + float64(d % Second) / 1e9\<close> with Go's truncating division.
  The model computes \<open>Seconds\<close> over the reals. The scheduler only compares the result
  with \<open>1\<close>: for a duration of at least one second the whole-second summand is already
  at least \<open>1\<close>, and below one second the sum is at most \<open>0.999999999\<close>, so the
  rounding of the floating-point operations never changes the outcome of that comparison.
\<close>

type_synonym Time = int
type_synonym Duration = int

definition minDuration :: Duration where
  "minDuration = - (2 ^ 63)"

definition maxDuration :: Duration where
  "maxDuration = 2 ^ 63 - 1"

definition Second :: Duration where
  "Second = 1000000000"

definition Sub :: "Time \<Rightarrow> Time \<Rightarrow> Duration" where
  "Sub t u =
     (let d = t - u
      in if d < minDuration then minDuration
         else if maxDuration < d then maxDuration
         else d)"

definition Seconds :: "Duration \<Rightarrow> real" where
  "Seconds d = real_of_int (d sdiv Second) + real_of_int (d smod Second) / 1000000000"


section \<open>The standard library's stable sort\<close>

text \<open>
  \<^verbatim>\<open>sort.SliceStable(x, less)\<close> runs \<^verbatim>\<open>stable_func\<close> over the slice: insertion sort
  on consecutive blocks of 20 elements, then \<^verbatim>\<open>symMerge_func\<close> on neighbouring blocks
  of doubling size. The slice is a list that the functions pass along; \<open>lt xs i j\<close> is
  the caller's closure \<^verbatim>\<open>less(i, j)\<close> reading the current contents \<open>xs\<close>, and
  \<open>Swap\<close> exchanges two positions. All indices are \<open>nat\<close>: they stay within the slice,
  and \<^verbatim>\<open>int(uint(i+j) >> 1)\<close> is \<open>(i + j) div 2\<close> there.
\<close>

definition Swap :: "'a list \<Rightarrow> nat \<Rightarrow> nat \<Rightarrow> 'a list" where
  "Swap xs i j = xs[i := xs ! j, j := xs ! i]"

text \<open>\<^verbatim>\<open>for j := i; j > a && data.Less(j, j-1); j-- { data.Swap(j, j-1) }\<close>\<close>

function insertionSort_inner ::
  "('a list \<Rightarrow> nat \<Rightarrow> nat \<Rightarrow> bool) \<Rightarrow> 'a list \<Rightarrow> nat \<Rightarrow> nat \<Rightarrow> 'a list" where
  "insertionSort_inner lt xs a j =
     (if j > a \<and> lt xs j (j - 1)
      then insertionSort_inner lt (Swap xs j (j - 1)) a (j - 1)
      else xs)"
  by pat_completeness auto
termination
  by (relation "measure (\<lambda>(lt, xs, a, j). j)") auto

text \<open>\<^verbatim>\<open>for i := a + 1; i < b; i++ { ... }\<close>\<close>

function insertionSort_outer ::
  "('a list \<Rightarrow> nat \<Rightarrow> nat \<Rightarrow> bool) \<Rightarrow> 'a list \<Rightarrow> nat \<Rightarrow> nat \<Rightarrow> nat \<Rightarrow> 'a list" where
  "insertionSort_outer lt xs a b i =
     (if i < b
      then insertionSort_outer lt (insertionSort_inner lt xs a i) a b (i + 1)
      else xs)"
  by pat_completeness auto
termination
  by (relation "measure (\<lambda>(lt, xs, a, b, i). b - i)") auto

definition insertionSort_func ::
  "('a list \<Rightarrow> nat \<Rightarrow> nat \<Rightarrow> bool) \<Rightarrow> 'a list \<Rightarrow> nat \<Rightarrow> nat \<Rightarrow> 'a list" where
  "insertionSort_func lt xs a b = insertionSort_outer lt xs a b (a + 1)"

text \<open>\<^verbatim>\<open>for i := 0; i < n; i++ { data.Swap(a+i, b+i) }\<close>\<close>

definition swapRange_func :: "'a list \<Rightarrow> nat \<Rightarrow> nat \<Rightarrow> nat \<Rightarrow> 'a list" where
  "swapRange_func xs a b n = fold (\<lambda>i ys. Swap ys (a + i) (b + i)) [0..<n] xs"

text \<open>
  \<^verbatim>\<open>rotate_func\<close> exchanges the neighbouring blocks \<open>[a, m)\<close> and \<open>[m, b)\<close>. Its loop
  \<^verbatim>\<open>for i != j\<close> subtracts the smaller of two block lengths from the larger; it is only
  called with both blocks non-empty, and the test \<open>0 < i \<and> 0 < j\<close> below stands for
  that fact, which makes the recursion terminate on every argument.
\<close>

function rotate_loop :: "'a list \<Rightarrow> nat \<Rightarrow> nat \<Rightarrow> nat \<Rightarrow> 'a list \<times> nat" where
  "rotate_loop xs m i j =
     (if i \<noteq> j \<and> 0 < i \<and> 0 < j
      then (if i > j
            then rotate_loop (swapRange_func xs (m - i) m j) m (i - j) j
            else rotate_loop (swapRange_func xs (m - i) (m + j - i) i) m i (j - i))
      else (xs, i))"
  by pat_completeness auto
termination
  by (relation "measure (\<lambda>(xs, m, i, j). i + j)") auto

definition rotate_func :: "'a list \<Rightarrow> nat \<Rightarrow> nat \<Rightarrow> nat \<Rightarrow> 'a list" where
  "rotate_func xs a m b =
     (case rotate_loop xs m (m - a) (b - m) of
        (ys, i) \<Rightarrow> swapRange_func ys (m - i) m i)"

text \<open>
  The three binary searches of \<^verbatim>\<open>symMerge_func\<close>, each returning the index at which
  its loop stops, and the two loops that move a single element into place.
\<close>

function symMerge_search_one_left ::
  "('a list \<Rightarrow> nat \<Rightarrow> nat \<Rightarrow> bool) \<Rightarrow> 'a list \<Rightarrow> nat \<Rightarrow> nat \<Rightarrow> nat \<Rightarrow> nat" where
  "symMerge_search_one_left lt xs a i j =
     (if i < j
      then (let h = (i + j) div 2
            in if lt xs h a
               then symMerge_search_one_left lt xs a (h + 1) j
               else symMerge_search_one_left lt xs a i h)
      else i)"
  by pat_completeness auto
termination
  by (relation "measure (\<lambda>(lt, xs, a, i, j). j - i)") auto

function symMerge_search_one_right ::
  "('a list \<Rightarrow> nat \<Rightarrow> nat \<Rightarrow> bool) \<Rightarrow> 'a list \<Rightarrow> nat \<Rightarrow> nat \<Rightarrow> nat \<Rightarrow> nat" where
  "symMerge_search_one_right lt xs m i j =
     (if i < j
      then (let h = (i + j) div 2
            in if \<not> lt xs m h
               then symMerge_search_one_right lt xs m (h + 1) j
               else symMerge_search_one_right lt xs m i h)
      else i)"
  by pat_completeness auto
termination
  by (relation "measure (\<lambda>(lt, xs, m, i, j). j - i)") auto

function symMerge_search ::
  "('a list \<Rightarrow> nat \<Rightarrow> nat \<Rightarrow> bool) \<Rightarrow> 'a list \<Rightarrow> nat \<Rightarrow> nat \<Rightarrow> nat \<Rightarrow> nat" where
  "symMerge_search lt xs p start r =
     (if start < r
      then (let c = (start + r) div 2
            in if \<not> lt xs (p - c) c
               then symMerge_search lt xs p (c + 1) r
               else symMerge_search lt xs p start c)
      else start)"
  by pat_completeness auto
termination
  by (relation "measure (\<lambda>(lt, xs, p, start, r). r - start)") auto

text \<open>\<^verbatim>\<open>for k := a; k < i-1; k++ { data.Swap(k, k+1) }\<close>\<close>

function symMerge_shift_up :: "'a list \<Rightarrow> nat \<Rightarrow> nat \<Rightarrow> 'a list" where
  "symMerge_shift_up xs k i =
     (if k < i - 1 then symMerge_shift_up (Swap xs k (k + 1)) (k + 1) i else xs)"
  by pat_completeness auto
termination
  by (relation "measure (\<lambda>(xs, k, i). i - k)") auto

text \<open>\<^verbatim>\<open>for k := m; k > i; k-- { data.Swap(k, k-1) }\<close>\<close>

function symMerge_shift_down :: "'a list \<Rightarrow> nat \<Rightarrow> nat \<Rightarrow> 'a list" where
  "symMerge_shift_down xs k i =
     (if k > i then symMerge_shift_down (Swap xs k (k - 1)) (k - 1) i else xs)"
  by pat_completeness auto
termination
  by (relation "measure (\<lambda>(xs, k, i). k)") auto

declare insertionSort_inner.simps [simp del] insertionSort_outer.simps [simp del]
  rotate_loop.simps [simp del] symMerge_search_one_left.simps [simp del]
  symMerge_search_one_right.simps [simp del] symMerge_search.simps [simp del]
  symMerge_shift_up.simps [simp del] symMerge_shift_down.simps [simp del]

text \<open>
  \<^verbatim>\<open>symMerge_func\<close> merges the sorted blocks \<open>[a, m)\<close> and \<open>[m, b)\<close>. The recursion
  is on the width \<open>b - a\<close>: both recursive calls are guarded by the source's own tests
  \<^verbatim>\<open>a < start && start < mid\<close> and \<^verbatim>\<open>mid < end && end < b\<close>.
\<close>

function symMerge_func ::
  "('a list \<Rightarrow> nat \<Rightarrow> nat \<Rightarrow> bool) \<Rightarrow> 'a list \<Rightarrow> nat \<Rightarrow> nat \<Rightarrow> nat \<Rightarrow> 'a list" where
  "symMerge_func lt xs a m b =
     (if m - a = 1
      then symMerge_shift_up xs a (symMerge_search_one_left lt xs a m b)
      else if b - m = 1
      then symMerge_shift_down xs m (symMerge_search_one_right lt xs m a m)
      else
        (let mid = (a + b) div 2;
             n = mid + m;
             start0 = (if m > mid then n - b else a);
             r = (if m > mid then mid else m);
             p = n - 1;
             start = symMerge_search lt xs p start0 r;
             end' = n - start;
             xs1 = (if start < m \<and> m < end' then rotate_func xs start m end' else xs);
             xs2 = (if a < start \<and> start < mid then symMerge_func lt xs1 a start mid else xs1)
         in if mid < end' \<and> end' < b then symMerge_func lt xs2 mid end' b else xs2))"
  by pat_completeness auto
termination
proof (relation "measure (\<lambda>(lt, xs, a, m, b). b - a)", goal_cases)
  case 1
  show ?case by simp
next
  case (2 lt xs a m b mid n start0 r p start end' xs1)
  from 2(3) 2(11) have "mid - a < b - a" by linarith
  then show ?case by simp
next
  case (3 lt xs a m b mid n start0 r p start end' xs1 xs2)
  from 3(3) 3(12) have "b - mid < b - a" by linarith
  then show ?case by simp
qed

declare symMerge_func.simps [simp del]

text \<open>The two loops of \<^verbatim>\<open>stable_func\<close> and the function itself; \<open>blockSize\<close> starts at 20.\<close>

function stable_blocks ::
  "('a list \<Rightarrow> nat \<Rightarrow> nat \<Rightarrow> bool) \<Rightarrow> 'a list \<Rightarrow> nat \<Rightarrow> nat \<Rightarrow> nat \<Rightarrow> 'a list \<times> nat" where
  "stable_blocks lt xs n a b =
     (if b \<le> n
      then stable_blocks lt (insertionSort_func lt xs a b) n b (b + 20)
      else (xs, a))"
  by pat_completeness auto
termination
  by (relation "measure (\<lambda>(lt, xs, n, a, b). n + 1 - b)") auto

function stable_merge_pass ::
  "('a list \<Rightarrow> nat \<Rightarrow> nat \<Rightarrow> bool) \<Rightarrow> 'a list \<Rightarrow> nat \<Rightarrow> nat \<Rightarrow> nat \<Rightarrow> nat \<Rightarrow> 'a list \<times> nat" where
  "stable_merge_pass lt xs n blockSize a b =
     (if b \<le> n \<and> 0 < blockSize
      then stable_merge_pass lt (symMerge_func lt xs a (a + blockSize) b) n blockSize
             b (b + 2 * blockSize)
      else (xs, a))"
  by pat_completeness auto
termination
  by (relation "measure (\<lambda>(lt, xs, n, blockSize, a, b). n + 1 - b)") auto

function stable_merge ::
  "('a list \<Rightarrow> nat \<Rightarrow> nat \<Rightarrow> bool) \<Rightarrow> 'a list \<Rightarrow> nat \<Rightarrow> nat \<Rightarrow> 'a list" where
  "stable_merge lt xs n blockSize =
     (if blockSize < n \<and> 0 < blockSize
      then (case stable_merge_pass lt xs n blockSize 0 (2 * blockSize) of
              (ys, a) \<Rightarrow>
                stable_merge lt
                  (if a + blockSize < n then symMerge_func lt ys a (a + blockSize) n else ys)
                  n (blockSize * 2))
      else xs)"
  by pat_completeness auto
termination
  by (relation "measure (\<lambda>(lt, xs, n, blockSize). n - blockSize)") auto

declare stable_blocks.simps [simp del] stable_merge_pass.simps [simp del]
  stable_merge.simps [simp del]

definition stable_func ::
  "('a list \<Rightarrow> nat \<Rightarrow> nat \<Rightarrow> bool) \<Rightarrow> 'a list \<Rightarrow> nat \<Rightarrow> 'a list" where
  "stable_func lt xs n =
     (case stable_blocks lt xs n 0 20 of
        (ys, a) \<Rightarrow> stable_merge lt (insertionSort_func lt ys a n) n 20)"

definition SliceStable :: "('a list \<Rightarrow> nat \<Rightarrow> nat \<Rightarrow> bool) \<Rightarrow> 'a list \<Rightarrow> 'a list" where
  "SliceStable lt xs = stable_func lt xs (length xs)"


section \<open>Strings\<close>

text \<open>
  The functions of Go's \<^verbatim>\<open>strings\<close> package that the scheduler calls. \<open>Split\<close> is
  \<^verbatim>\<open>strings.Split\<close> for a separator of one byte: it cuts at every occurrence of the
  separator, so a string with \<open>k\<close> separators gives \<open>k + 1\<close> pieces.
\<close>

function Split :: "string \<Rightarrow> char \<Rightarrow> string list" where
  "Split s sep =
     (case dropWhile (\<lambda>c. c \<noteq> sep) s of
        [] \<Rightarrow> [s]
      | _ # rest \<Rightarrow> takeWhile (\<lambda>c. c \<noteq> sep) s # Split rest sep)"
  by pat_completeness auto
termination
proof (relation "measure (\<lambda>(s, sep). length s)", goal_cases)
  case 1
  show ?case by simp
next
  case (2 s sep x rest)
  have "length (dropWhile (\<lambda>c. c \<noteq> sep) s) \<le> length s"
    by (rule length_dropWhile_le)
  with 2 show ?case by simp
qed

declare Split.simps [simp del]

definition HasPrefix :: "string \<Rightarrow> string \<Rightarrow> bool" where
  "HasPrefix s pre = (length pre \<le> length s \<and> take (length pre) s = pre)"

definition HasSuffix :: "string \<Rightarrow> string \<Rightarrow> bool" where
  "HasSuffix s suf = (length suf \<le> length s \<and> drop (length s - length suf) s = suf)"

definition TrimPrefix :: "string \<Rightarrow> string \<Rightarrow> string" where
  "TrimPrefix s pre = (if HasPrefix s pre then drop (length pre) s else s)"

definition TrimSuffix :: "string \<Rightarrow> string \<Rightarrow> string" where
  "TrimSuffix s suf = (if HasSuffix s suf then take (length s - length suf) s else s)"


section \<open>Events and the event catalog\<close>

datatype error = InvalidDefiner | CollaboratorError string

text \<open>
  Modelled from the spec: the declaration of \<^verbatim>\<open>sql.EventStatus\<close> is not among the
  sources. The spec names the three statuses Enabled, Disabled and Disabled-on-Slave;
  the scheduler stores a status as the string that \<^verbatim>\<open>String()\<close> gives.
\<close>

datatype EventStatus = EventStatus_Enable | EventStatus_Disable | EventStatus_DisableOnSlave

fun EventStatus_String :: "EventStatus \<Rightarrow> string" where
  "EventStatus_String EventStatus_Enable = ''ENABLE''"
| "EventStatus_String EventStatus_Disable = ''DISABLE''"
| "EventStatus_String EventStatus_DisableOnSlave = ''DISABLE ON SLAVE''"

text \<open>
  Modelled from the spec: the declaration of \<^verbatim>\<open>sql.EventDetails\<close> is not among the
  sources. The record has the fields that the scheduler reads or writes. The method
  \<^verbatim>\<open>GetNextExecutionTime\<close> is a parameter \<open>gnet\<close> of the functions that call it,
  returning the triple of the next time, the ended flag and the error.
\<close>

record EventDetails =
  Name :: string
  Definer :: string
  Status :: string
  HasExecuteAt :: bool
  OnCompletionPreserve :: bool
  LastExecuted :: Time

text \<open>
  Modelled from the spec: \<^verbatim>\<open>sql.EventDatabase\<close> is an interface declared outside the
  sources. A value of the interface is a record of its methods; \<open>'s\<close> is the state of
  the persistent catalog, which \<open>UpdateEvent\<close> and \<open>DropEvent\<close> read and change. The
  scheduler discards the boolean that \<^verbatim>\<open>UpdateEvent\<close> returns beside the error.
\<close>

record 's EventDatabase =
  EventDatabase_Name :: string
  UpdateEvent :: "string \<Rightarrow> EventDetails \<Rightarrow> 's \<Rightarrow> error option \<times> 's"
  DropEvent :: "string \<Rightarrow> 's \<Rightarrow> error option \<times> 's"

record 's enabledEvent =
  edb :: "'s EventDatabase"
  eventDetails :: EventDetails
  nextExecutionAt :: Time
  username :: string
  address :: string

definition getUsernameAndAddressFromDefiner :: "string \<Rightarrow> error + string \<times> string" where
  "getUsernameAndAddressFromDefiner definer =
     (let ua = Split definer CHR ''@''
      in if length ua \<noteq> 2 then Inl InvalidDefiner
         else
           (let username = TrimSuffix (TrimPrefix (ua ! 0) ''`'') ''`'';
                username = TrimSuffix (TrimPrefix username [CHR 0x27]) [CHR 0x27];
                address = TrimSuffix (TrimPrefix (ua ! 1) ''`'') ''`'';
                address = TrimSuffix (TrimPrefix address [CHR 0x27]) [CHR 0x27]
            in Inr (username, address)))"

definition newEnabledEventFromEventDetails ::
  "(EventDetails \<Rightarrow> Time \<Rightarrow> Time \<times> bool \<times> error option) \<Rightarrow> 's EventDatabase \<Rightarrow>
   EventDetails \<Rightarrow> Time \<Rightarrow> 's \<Rightarrow> ('s enabledEvent option \<times> bool \<times> error option) \<times> 's" where
  "newEnabledEventFromEventDetails gnet db ed curTime s =
     (if Status ed = EventStatus_String EventStatus_Enable
      then
        (case gnet ed curTime of (nextExecution, eventEnded, err) \<Rightarrow>
           if err \<noteq> None then ((None, False, err), s)
           else if \<not> eventEnded then
             (case getUsernameAndAddressFromDefiner (Definer ed) of
                Inl err \<Rightarrow> ((None, False, Some err), s)
              | Inr (usr, addr) \<Rightarrow>
                  ((Some \<lparr>edb = db, eventDetails = ed, nextExecutionAt = nextExecution,
                           username = usr, address = addr\<rparr>, True, None), s))
           else if OnCompletionPreserve ed then
             (let ed = ed\<lparr>Status := EventStatus_String EventStatus_Disable\<rparr>
              in case UpdateEvent db (Name ed) ed s of (err, s') \<Rightarrow>
                   if err \<noteq> None then ((None, False, err), s')
                   else ((None, False, None), s'))
           else
             (case DropEvent db (Name ed) s of (err, s') \<Rightarrow>
                if err \<noteq> None then ((None, False, err), s')
                else ((None, False, None), s')))
      else ((None, False, None), s))"

definition name :: "'s enabledEvent \<Rightarrow> string" where
  "name e = EventDatabase_Name (edb e) @ ''.'' @ Name (eventDetails e)"

text \<open>
  \<open>updateEventAfterExecution\<close> changes the event through its pointer receiver and the
  catalog through \<open>db\<close>: the model returns the pair of results, the event and the catalog
  state. \<open>now\<close> is the reading of \<^verbatim>\<open>time.Now()\<close>. The statements after the test of
  \<open>ended\<close>, which set \<open>LastExecuted\<close> and store the definition, are
  \<open>updateEventAfterExecution_store\<close>.
\<close>

definition updateEventAfterExecution_store ::
  "bool \<Rightarrow> 's enabledEvent \<Rightarrow> 's EventDatabase \<Rightarrow> Time \<Rightarrow> 's \<Rightarrow>
   (bool \<times> error option) \<times> 's enabledEvent \<times> 's" where
  "updateEventAfterExecution_store ended e db executionTime s =
     (let e = e\<lparr>eventDetails := (eventDetails e)\<lparr>LastExecuted := executionTime\<rparr>\<rparr>
      in case UpdateEvent db (Name (eventDetails e)) (eventDetails e) s of (err, s') \<Rightarrow>
           if err \<noteq> None then ((ended, err), e, s')
           else ((ended, None), e, s'))"

definition updateEventAfterExecution ::
  "(EventDetails \<Rightarrow> Time \<Rightarrow> Time \<times> bool \<times> error option) \<Rightarrow> Time \<Rightarrow> 's enabledEvent \<Rightarrow>
   's EventDatabase \<Rightarrow> Time \<Rightarrow> 's \<Rightarrow> (bool \<times> error option) \<times> 's enabledEvent \<times> 's" where
  "updateEventAfterExecution gnet now e db executionTime s =
     (case (if HasExecuteAt (eventDetails e) then (0, True, None)
            else gnet (eventDetails e) now) of
        (nextExecution, ended, err) \<Rightarrow>
          if \<not> HasExecuteAt (eventDetails e) \<and> err \<noteq> None then ((ended, err), e, s)
          else if ended then
            (if OnCompletionPreserve (eventDetails e)
             then updateEventAfterExecution_store ended
                    (e\<lparr>eventDetails := (eventDetails e)
                         \<lparr>Status := EventStatus_String EventStatus_Disable\<rparr>\<rparr>)
                    db executionTime s
             else
               (case DropEvent db (Name (eventDetails e)) s of (err, s') \<Rightarrow>
                  if err \<noteq> None then ((ended, err), e, s')
                  else ((True, None), e, s')))
          else updateEventAfterExecution_store ended (e\<lparr>nextExecutionAt := nextExecution\<rparr>)
                 db executionTime s)"


section \<open>The list of enabled events\<close>

text \<open>
  Every method of \<^verbatim>\<open>enabledEventsList\<close> holds the mutex from its first statement to its
  return, so the methods are atomic and the model leaves the mutex out. \<open>eventsList\<close> is
  the slice as its readers see it.
\<close>

record 's enabledEventsList =
  eventsList :: "'s enabledEvent list"

text \<open>The closure given to \<^verbatim>\<open>sort.SliceStable\<close> by \<open>newEnabledEventsList\<close> and \<open>add\<close>.\<close>

definition less_nextExecutionAt :: "'s enabledEvent list \<Rightarrow> nat \<Rightarrow> nat \<Rightarrow> bool" where
  "less_nextExecutionAt xs i j =
     (Seconds (Sub (nextExecutionAt (xs ! i)) (nextExecutionAt (xs ! j))) < 1)"

definition newEnabledEventsList :: "'s enabledEvent list \<Rightarrow> 's enabledEventsList" where
  "newEnabledEventsList list = \<lparr>eventsList = SliceStable less_nextExecutionAt list\<rparr>"

definition enabledEventsList_clear :: "'s enabledEventsList \<Rightarrow> 's enabledEventsList" where
  "enabledEventsList_clear l = l\<lparr>eventsList := []\<rparr>"

definition len :: "'s enabledEventsList \<Rightarrow> nat" where
  "len l = length (eventsList l)"

definition getNextExecutionTime :: "'s enabledEventsList \<Rightarrow> Time \<times> bool" where
  "getNextExecutionTime l =
     (if length (eventsList l) = 0 then (0, False)
      else (nextExecutionAt (eventsList l ! 0), True))"

definition pop :: "'s enabledEventsList \<Rightarrow> 's enabledEvent option \<times> 's enabledEventsList" where
  "pop l =
     (if length (eventsList l) = 0 then (None, l)
      else (Some (eventsList l ! 0), l\<lparr>eventsList := drop 1 (eventsList l)\<rparr>))"

definition add :: "'s enabledEventsList \<Rightarrow> 's enabledEvent \<Rightarrow> 's enabledEventsList" where
  "add l event = l\<lparr>eventsList := SliceStable less_nextExecutionAt (eventsList l @ [event])\<rparr>"

text \<open>
  \<open>remove\<close> returns from inside its loop at the first entry whose name is the key.
\<close>

function remove_loop :: "string \<Rightarrow> 's enabledEvent list \<Rightarrow> nat \<Rightarrow> 's enabledEvent list" where
  "remove_loop key xs i =
     (if i < length xs
      then (if name (xs ! i) = key then take i xs @ drop (i + 1) xs
            else remove_loop key xs (i + 1))
      else xs)"
  by pat_completeness auto
termination
  by (relation "measure (\<lambda>(key, xs, i). length xs - i)") auto

declare remove_loop.simps [simp del]

definition enabledEventsList_remove :: "'s enabledEventsList \<Rightarrow> string \<Rightarrow> 's enabledEventsList" where
  "enabledEventsList_remove l key = l\<lparr>eventsList := remove_loop key (eventsList l) 0\<rparr>"

text \<open>
  \<open>removeSchemaEvents\<close> ranges over the slice that \<open>l.eventsList\<close> held when the loop
  began (\<open>n\<close> entries, read from the backing array \<open>arr\<close>), while each match assigns a
  shorter slice of the same array to \<open>l.eventsList\<close> (its length is \<open>cur\<close>). The
  \<^verbatim>\<open>append\<close> has room in the array, so it moves the entries \<open>i + 1 ..< cur\<close> one place
  down in \<open>arr\<close> itself and leaves the places from \<open>cur - 1\<close> on as they were; the loop
  reads its later entries from that changed array. The slice expression
  \<^verbatim>\<open>l.eventsList[i+1:]\<close> panics when \<open>i + 1\<close> exceeds the current length.
\<close>

datatype panic = SliceBoundsOutOfRange nat nat

function removeSchemaEvents_loop ::
  "string \<Rightarrow> nat \<Rightarrow> 's enabledEvent list \<Rightarrow> nat \<Rightarrow> nat \<Rightarrow> panic + 's enabledEvent list" where
  "removeSchemaEvents_loop dbName n arr cur i =
     (if i < n
      then (if EventDatabase_Name (edb (arr ! i)) = dbName
            then (if cur < i + 1 then Inl (SliceBoundsOutOfRange (i + 1) cur)
                  else removeSchemaEvents_loop dbName n
                         (take i arr @ drop (i + 1) (take cur arr) @ drop (cur - 1) arr)
                         (cur - 1) (i + 1))
            else removeSchemaEvents_loop dbName n arr cur (i + 1))
      else Inr (take cur arr))"
  by pat_completeness auto
termination
  by (relation "measure (\<lambda>(dbName, n, arr, cur, i). n - i)") auto

declare removeSchemaEvents_loop.simps [simp del]

definition enabledEventsList_removeSchemaEvents ::
  "'s enabledEventsList \<Rightarrow> string \<Rightarrow> panic + 's enabledEventsList" where
  "enabledEventsList_removeSchemaEvents l dbName =
     (case removeSchemaEvents_loop dbName (length (eventsList l)) (eventsList l)
             (length (eventsList l)) 0 of
        Inl p \<Rightarrow> Inl p
      | Inr xs \<Rightarrow> Inr (l\<lparr>eventsList := xs\<rparr>))"


section \<open>The status of running events\<close>

text \<open>
  The two Go maps are association lists, read with \<open>map_of\<close> and written with
  \<open>AList.update\<close> and \<open>AList.delete\<close>. A \<^verbatim>\<open>range\<close> over a map is a fold over its keys;
  Go fixes no order for it, and none of the loops below depends on one.
\<close>

record runningEventsStatus =
  status :: "(string \<times> bool) list"
  reAdd :: "(string \<times> bool) list"

text \<open>A read \<^verbatim>\<open>m[k]\<close> of a Go map gives the zero value \<open>False\<close> for a missing key.\<close>

definition index_map :: "(string \<times> bool) list \<Rightarrow> string \<Rightarrow> bool" where
  "index_map m k = (case map_of m k of Some v \<Rightarrow> v | None \<Rightarrow> False)"

definition newRunningEventsStatus :: runningEventsStatus where
  "newRunningEventsStatus = \<lparr>status = [], reAdd = []\<rparr>"

definition runningEventsStatus_clear :: "runningEventsStatus \<Rightarrow> runningEventsStatus" where
  "runningEventsStatus_clear r =
     (let r = fold (\<lambda>k r. r\<lparr>status := AList.delete k (status r)\<rparr>) (map fst (status r)) r
      in fold (\<lambda>k r. r\<lparr>status := AList.delete k (status r)\<rparr>) (map fst (reAdd r)) r)"

definition update :: "runningEventsStatus \<Rightarrow> string \<Rightarrow> bool \<Rightarrow> bool \<Rightarrow> runningEventsStatus" where
  "update r key st ra =
     r\<lparr>status := AList.update key st (status r), reAdd := AList.update key ra (reAdd r)\<rparr>"

definition runningEventsStatus_remove :: "runningEventsStatus \<Rightarrow> string \<Rightarrow> runningEventsStatus" where
  "runningEventsStatus_remove r key = r\<lparr>status := AList.delete key (status r)\<rparr>"

definition getStatus :: "runningEventsStatus \<Rightarrow> string \<Rightarrow> bool \<times> bool" where
  "getStatus r key =
     (case map_of (status r) key of Some s \<Rightarrow> (s, True) | None \<Rightarrow> (False, False))"

definition getReAdd :: "runningEventsStatus \<Rightarrow> string \<Rightarrow> bool \<times> bool" where
  "getReAdd r key =
     (case map_of (reAdd r) key of Some ra \<Rightarrow> (ra, True) | None \<Rightarrow> (False, False))"

text \<open>The body of the loop of \<open>removeSchemaEvents\<close>, for the key \<open>evId\<close>.\<close>

definition removeSchemaEvents_body ::
  "string \<Rightarrow> string \<Rightarrow> runningEventsStatus \<Rightarrow> runningEventsStatus" where
  "removeSchemaEvents_body dbName evId r =
     (if HasPrefix evId (dbName @ ''.'')
      then r\<lparr>status := AList.update evId (index_map (status r) evId) (status r),
             reAdd := AList.update evId False (reAdd r)\<rparr>
      else r)"

definition runningEventsStatus_removeSchemaEvents ::
  "runningEventsStatus \<Rightarrow> string \<Rightarrow> runningEventsStatus" where
  "runningEventsStatus_removeSchemaEvents r dbName =
     fold (removeSchemaEvents_body dbName) (map fst (status r)) r"


section \<open>Definer parsing in words\<close>

text \<open>
  The parsing of a definer as the spec words it: the string is cut at its one \<open>@\<close>, and
  a half that is wrapped in a matching pair of backticks or of single quotes loses that
  one layer; any other half stays as it is. These definitions follow the spec, not the
  source, and are what \<open>getUsernameAndAddressFromDefiner\<close> is compared with.
\<close>

definition is_quote :: "char \<Rightarrow> bool" where
  "is_quote c = (c = CHR ''`'' \<or> c = CHR 0x27)"

definition spec_strip_layer :: "string \<Rightarrow> string" where
  "spec_strip_layer s =
     (if 2 \<le> length s \<and> hd s = last s \<and> is_quote (hd s) then butlast (tl s) else s)"

definition spec_parse_definer :: "string \<Rightarrow> error + string \<times> string" where
  "spec_parse_definer d =
     (if count_list d CHR ''@'' \<noteq> 1 then Inl InvalidDefiner
      else Inr (spec_strip_layer (takeWhile (\<lambda>c. c \<noteq> CHR ''@'') d),
                spec_strip_layer (tl (dropWhile (\<lambda>c. c \<noteq> CHR ''@'') d))))"

text \<open>
  The parsing in the words of the amended claim: each half loses a leading backtick if
  it has one, then a trailing backtick if it has one, and then in the same way a leading
  and a trailing single quote; no test looks at whether the two ends match.
\<close>

definition trim_ends :: "char \<Rightarrow> string \<Rightarrow> string" where
  "trim_ends q s =
     (let s = (if s \<noteq> [] \<and> hd s = q then tl s else s)
      in if s \<noteq> [] \<and> last s = q then butlast s else s)"

definition trims_parse_definer :: "string \<Rightarrow> error + string \<times> string" where
  "trims_parse_definer d =
     (if count_list d CHR ''@'' \<noteq> 1 then Inl InvalidDefiner
      else Inr (trim_ends (CHR 0x27) (trim_ends CHR ''`'' (takeWhile (\<lambda>c. c \<noteq> CHR ''@'') d)),
                trim_ends (CHR 0x27) (trim_ends CHR ''`'' (tl (dropWhile (\<lambda>c. c \<noteq> CHR ''@'') d)))))"

text \<open>
  A half is bare or wrapped when it has no quote character at either end, or when it is
  a matching pair of quote characters around a string that has none at either end.
\<close>

definition bare_or_wrapped :: "string \<Rightarrow> bool" where
  "bare_or_wrapped s =
     (if s \<noteq> [] \<and> (is_quote (hd s) \<or> is_quote (last s))
      then 2 \<le> length s \<and> hd s = last s \<and>
           (butlast (tl s) = [] \<or>
            (\<not> is_quote (hd (butlast (tl s))) \<and> \<not> is_quote (last (butlast (tl s)))))
      else True)"


section \<open>Example values\<close>

text \<open>
  A catalog kept in memory, as an association list from event names to definitions, and
  an event of a database of a given name: the concrete values at which the theorems
  below are instantiated.
\<close>

definition memory_db :: "string \<Rightarrow> (string \<times> EventDetails) list EventDatabase" where
  "memory_db dbName =
     \<lparr>EventDatabase_Name = dbName,
      UpdateEvent = (\<lambda>n ed s. (None, AList.update n ed s)),
      DropEvent = (\<lambda>n s. (None, AList.delete n s))\<rparr>"

definition example_details :: "string \<Rightarrow> EventDetails" where
  "example_details n =
     \<lparr>Name = n, Definer = ''`root`@`localhost`'',
      Status = EventStatus_String EventStatus_Enable, HasExecuteAt = False,
      OnCompletionPreserve = False, LastExecuted = 0\<rparr>"

definition example_event ::
  "string \<Rightarrow> string \<Rightarrow> Time \<Rightarrow> (string \<times> EventDetails) list enabledEvent" where
  "example_event dbName n t =
     \<lparr>edb = memory_db dbName, eventDetails = example_details n, nextExecutionAt = t,
      username = ''root'', address = ''localhost''\<rparr>"

text \<open>A schedule whose next execution is one nanosecond after the time asked about.\<close>

definition example_gnet :: "bool \<Rightarrow> EventDetails \<Rightarrow> Time \<Rightarrow> Time \<times> bool \<times> error option" where
  "example_gnet ended ed t = (t + 1, ended, None)"

text \<open>A schedule whose computation fails, reporting the ended flag beside the error.\<close>

definition example_failing_gnet :: "EventDetails \<Rightarrow> Time \<Rightarrow> Time \<times> bool \<times> error option" where
  "example_failing_gnet ed t = (0, True, Some (CollaboratorError ''schedule''))"


section \<open>The running set\<close>

lemma removeSchemaEvents_fold_maps:
  "set ks \<subseteq> dom (map_of (status r)) \<Longrightarrow>
   map_of (status (fold (removeSchemaEvents_body db) ks r)) = map_of (status r) \<and>
   map_of (reAdd (fold (removeSchemaEvents_body db) ks r)) =
     (\<lambda>k. if k \<in> set ks \<and> HasPrefix k (db @ ''.'') then Some False else map_of (reAdd r) k)"
proof (induction ks arbitrary: r)
  case Nil
  show ?case by simp
next
  case (Cons x ks)
  let ?r = "removeSchemaEvents_body db x r"
  from Cons.prems obtain v where v: "map_of (status r) x = Some v" by auto
  have st: "map_of (status ?r) = map_of (status r)"
    using v by (auto simp: removeSchemaEvents_body_def update_conv' index_map_def fun_upd_idem_iff)
  have ra: "map_of (reAdd ?r) =
      (\<lambda>k. if k = x \<and> HasPrefix k (db @ ''.'') then Some False else map_of (reAdd r) k)"
    by (auto simp: removeSchemaEvents_body_def update_conv')
  from Cons.prems st have "set ks \<subseteq> dom (map_of (status ?r))" by simp
  from Cons.IH[OF this] show ?case
    by (auto simp: st ra)
qed

lemma removeSchemaEvents_status:
  "map_of (status (runningEventsStatus_removeSchemaEvents r db)) = map_of (status r)"
proof -
  have "set (map fst (status r)) \<subseteq> dom (map_of (status r))"
    by (simp add: dom_map_of_conv_image_fst)
  from removeSchemaEvents_fold_maps[OF this, of db] show ?thesis
    by (simp add: runningEventsStatus_removeSchemaEvents_def)
qed

lemma removeSchemaEvents_reAdd:
  "map_of (reAdd (runningEventsStatus_removeSchemaEvents r db)) k =
     (if map_of (status r) k \<noteq> None \<and> HasPrefix k (db @ ''.'') then Some False
      else map_of (reAdd r) k)"
proof -
  have "set (map fst (status r)) \<subseteq> dom (map_of (status r))"
    by (simp add: dom_map_of_conv_image_fst)
  from removeSchemaEvents_fold_maps[OF this, of db] show ?thesis
    by (auto simp: runningEventsStatus_removeSchemaEvents_def dom_map_of_conv_image_fst
        map_of_eq_None_iff)
qed

text \<open>
  C2. For every state \<open>r\<close> of the running set and every database name \<open>db\<close>,
  \<open>removeSchemaEvents\<close> leaves the status lookup of every key \<open>k\<close> as it was (no entry
  is removed, no running status changes), removes no key from the \<open>reAdd\<close> map, and for
  every entry \<open>db.n\<close> of the database that the status map holds, the \<open>reAdd\<close> lookup
  afterwards finds the key present with the value \<open>False\<close>.
\<close>

theorem clearDatabase_keeps_entries:
  "getStatus (runningEventsStatus_removeSchemaEvents r db) k = getStatus r k \<and>
   (snd (getReAdd r k) \<longrightarrow> snd (getReAdd (runningEventsStatus_removeSchemaEvents r db) k)) \<and>
   (snd (getStatus r (db @ ''.'' @ n)) \<longrightarrow>
      getReAdd (runningEventsStatus_removeSchemaEvents r db) (db @ ''.'' @ n) = (False, True))"
proof -
  have p: "HasPrefix (db @ CHR ''.'' # n) (db @ ''.'')"
    by (simp add: HasPrefix_def)
  show ?thesis
    by (auto simp: getStatus_def getReAdd_def removeSchemaEvents_status
        removeSchemaEvents_reAdd p split: option.splits)
qed

theorem clearDatabase_keeps_entries_witness:
  "snd (getStatus (update (update newRunningEventsStatus ''db.ev'' True True) ''other.ev'' True True)
         ''db.ev'') \<and>
   getReAdd (runningEventsStatus_removeSchemaEvents
       (update (update newRunningEventsStatus ''db.ev'' True True) ''other.ev'' True True) ''db'')
     ''db.ev'' = (False, True) \<and>
   getStatus (runningEventsStatus_removeSchemaEvents
       (update (update newRunningEventsStatus ''db.ev'' True True) ''other.ev'' True True) ''db'')
     ''other.ev'' = (True, True)"
  using clearDatabase_keeps_entries
    [of "update (update newRunningEventsStatus ''db.ev'' True True) ''other.ev'' True True"
        "''db''" "''other.ev''" "''ev''"]
  by (simp add: getStatus_def update_def newRunningEventsStatus_def)

text \<open>
  C9. \<open>remove\<close> deletes the key from the status map only: after \<open>update\<close> of a key
  with any status and any \<open>reAdd\<close> flag \<open>ra\<close>, \<open>remove\<close> of the key makes \<open>getStatus\<close>
  report it absent while \<open>getReAdd\<close> still returns \<open>(ra, True)\<close>; on every state the
  \<open>reAdd\<close> map after \<open>remove\<close> is the one before.
\<close>

theorem remove_keeps_reAdd:
  "getStatus (runningEventsStatus_remove (update r key s ra) key) key = (False, False) \<and>
   getReAdd (runningEventsStatus_remove (update r key s ra) key) key = (ra, True) \<and>
   reAdd (runningEventsStatus_remove r' key) = reAdd r'"
  by (simp add: getStatus_def getReAdd_def runningEventsStatus_remove_def update_def
      update_conv' delete_conv')

lemma clear_fold_reAdd:
  "reAdd (fold (\<lambda>k r. r\<lparr>status := AList.delete k (status r)\<rparr>) ks r) = reAdd r"
  by (induction ks arbitrary: r) simp_all

lemma clear_fold_status:
  "map_of (status (fold (\<lambda>k r. r\<lparr>status := AList.delete k (status r)\<rparr>) ks r)) k =
     (if k \<in> set ks then None else map_of (status r) k)"
  by (induction ks arbitrary: r) (simp_all add: delete_conv')

text \<open>
  C3. The claim is that after \<open>clear\<close> both lookups report every key absent. The second
  loop of \<open>clear\<close> ranges over the keys of \<open>reAdd\<close> and deletes them from \<open>status\<close>:
  on every state \<open>clear\<close> leaves the \<open>reAdd\<close> map as it was, while \<open>getStatus\<close>
  reports every key absent. After \<open>update\<close> of the key \<open>db.ev\<close> on the empty running
  set and \<open>clear\<close>, \<open>getStatus\<close> reports the key absent and \<open>getReAdd\<close> still
  finds it.
\<close>

theorem clear_leaves_reAdd:
  "reAdd (runningEventsStatus_clear r) = reAdd r \<and>
   getStatus (runningEventsStatus_clear r) k = (False, False) \<and>
   getStatus (runningEventsStatus_clear (update newRunningEventsStatus ''db.ev'' True True))
     ''db.ev'' = (False, False) \<and>
   getReAdd (runningEventsStatus_clear (update newRunningEventsStatus ''db.ev'' True True))
     ''db.ev'' = (True, True)"
proof -
  let ?del = "\<lambda>k r. r\<lparr>status := AList.delete k (status r)\<rparr>"
  let ?r1 = "fold ?del (map fst (status r)) r"
  have c: "runningEventsStatus_clear r = fold ?del (map fst (reAdd ?r1)) ?r1"
    by (simp add: runningEventsStatus_clear_def Let_def)
  have a: "reAdd (runningEventsStatus_clear r) = reAdd r"
    by (simp add: c clear_fold_reAdd)
  have "map_of (status ?r1) k = None"
    by (simp add: clear_fold_status map_of_eq_None_iff)
  then have "map_of (status (runningEventsStatus_clear r)) k = None"
    by (simp add: c clear_fold_status)
  then have b: "getStatus (runningEventsStatus_clear r) k = (False, False)"
    by (simp add: getStatus_def)
  have d: "getStatus (runningEventsStatus_clear (update newRunningEventsStatus ''db.ev'' True True))
     ''db.ev'' = (False, False) \<and>
   getReAdd (runningEventsStatus_clear (update newRunningEventsStatus ''db.ev'' True True))
     ''db.ev'' = (True, True)"
    by (simp add: getStatus_def getReAdd_def runningEventsStatus_clear_def update_def
      newRunningEventsStatus_def)
  from a b d show ?thesis by simp
qed


section \<open>Definer parsing\<close>

lemma Split_no_sep: "sep \<notin> set s \<Longrightarrow> Split s sep = [s]"
proof -
  assume "sep \<notin> set s"
  then have d: "dropWhile (\<lambda>c. c \<noteq> sep) s = []" by auto
  show ?thesis by (subst Split.simps, subst d) simp
qed

lemma Split_append: "sep \<notin> set u \<Longrightarrow> Split (u @ sep # t) sep = u # Split t sep"
proof -
  assume a: "sep \<notin> set u"
  then have d: "dropWhile (\<lambda>c. c \<noteq> sep) (u @ sep # t) = sep # t"
    by (auto simp: dropWhile_append3)
  from a have t: "takeWhile (\<lambda>c. c \<noteq> sep) (u @ sep # t) = u"
    by (auto simp: takeWhile_tail)
  show ?thesis by (subst Split.simps, subst d, subst t) simp
qed

lemma Split_length: "length (Split s sep) = Suc (count_list s sep)"
proof (induction s sep rule: Split.induct)
  case (1 s sep)
  show ?case
  proof (cases "dropWhile (\<lambda>c. c \<noteq> sep) s")
    case Nil
    then have "sep \<notin> set s" by auto
    then show ?thesis by (simp add: Split_no_sep count_list_0_iff)
  next
    case (Cons x rest)
    have x: "x = sep" using Cons hd_dropWhile[of "\<lambda>c. c \<noteq> sep" s] by auto
    have s: "s = takeWhile (\<lambda>c. c \<noteq> sep) s @ sep # rest"
      using takeWhile_dropWhile_id[of "\<lambda>c. c \<noteq> sep" s] Cons x by simp
    have n: "sep \<notin> set (takeWhile (\<lambda>c. c \<noteq> sep) s)"
      by (auto dest: set_takeWhileD)
    have "count_list s sep = Suc (count_list rest sep)"
      by (subst s) (simp add: n count_list_0_iff)
    moreover have "length (Split s sep) = Suc (length (Split rest sep))"
      by (subst Split.simps) (simp add: Cons)
    ultimately show ?thesis using "1.IH"[OF Cons] by simp
  qed
qed

lemma getUsernameAndAddressFromDefiner_fails_iff:
  "getUsernameAndAddressFromDefiner d = Inl InvalidDefiner \<longleftrightarrow> count_list d CHR ''@'' \<noteq> 1"
  by (auto simp: getUsernameAndAddressFromDefiner_def Split_length Let_def)

lemma TrimPrefix_hd: "TrimPrefix s [q] = (if s \<noteq> [] \<and> hd s = q then tl s else s)"
  by (cases s) (auto simp: TrimPrefix_def HasPrefix_def)

lemma TrimSuffix_last: "TrimSuffix s [q] = (if s \<noteq> [] \<and> last s = q then butlast s else s)"
  by (cases s rule: rev_cases) (auto simp: TrimSuffix_def HasSuffix_def)

lemma Trim_trim_ends: "TrimSuffix (TrimPrefix s [q]) [q] = trim_ends q s"
  by (simp add: trim_ends_def TrimPrefix_hd TrimSuffix_last Let_def)

lemma Split_one:
  assumes "count_list d sep = 1"
  shows "Split d sep = [takeWhile (\<lambda>c. c \<noteq> sep) d, tl (dropWhile (\<lambda>c. c \<noteq> sep) d)]"
proof -
  let ?u = "takeWhile (\<lambda>c. c \<noteq> sep) d"
  let ?r = "dropWhile (\<lambda>c. c \<noteq> sep) d"
  have u: "sep \<notin> set ?u" by (auto dest: set_takeWhileD)
  have d: "d = ?u @ ?r" by simp
  have "count_list (?u @ ?r) sep = count_list ?u sep + count_list ?r sep"
    by (rule count_list_append)
  with assms u have c: "count_list ?r sep = 1"
    by (simp add: count_list_0_iff)
  have ne: "?r \<noteq> []"
  proof
    assume a: "?r = []"
    from c show False unfolding a by simp
  qed
  then have hd: "hd ?r = sep" using hd_dropWhile[of "\<lambda>c. c \<noteq> sep" d] by auto
  with ne have r: "?r = sep # tl ?r" by (cases ?r) auto
  have "count_list (sep # tl ?r) sep = 1" using c r by simp
  then have t: "sep \<notin> set (tl ?r)" by (simp add: count_list_0_iff)
  have "Split d sep = Split (?u @ sep # tl ?r) sep" using d r by simp
  also have "\<dots> = ?u # Split (tl ?r) sep" using u by (rule Split_append)
  also have "\<dots> = [?u, tl ?r]" using t by (simp add: Split_no_sep)
  finally show ?thesis .
qed

lemma parse_eq_trims: "getUsernameAndAddressFromDefiner d = trims_parse_definer d"
proof (cases "count_list d CHR ''@'' = 1")
  case True
  then show ?thesis
    by (simp add: getUsernameAndAddressFromDefiner_def trims_parse_definer_def Split_one
        Let_def Trim_trim_ends)
next
  case False
  then show ?thesis
    by (simp add: getUsernameAndAddressFromDefiner_def trims_parse_definer_def Split_length
        Let_def)
qed

lemma two_ends: "2 \<le> length s \<Longrightarrow> s = hd s # butlast (tl s) @ [last s]"
proof -
  assume a: "2 \<le> length s"
  then obtain x t where s: "s = x # t" and t: "t \<noteq> []"
    by (cases s) (auto simp: Suc_le_eq numeral_2_eq_2)
  then have "t = butlast t @ [last t]" by simp
  with s t show ?thesis by simp
qed

lemma trims_bare_or_wrapped:
  assumes "bare_or_wrapped s"
  shows "trim_ends (CHR 0x27) (trim_ends CHR ''`'' s) = spec_strip_layer s"
proof (cases "s \<noteq> [] \<and> (is_quote (hd s) \<or> is_quote (last s))")
  case False
  then show ?thesis
    by (auto simp: trim_ends_def spec_strip_layer_def is_quote_def Let_def)
next
  case True
  with assms have l: "2 \<le> length s" and e: "hd s = last s"
    and t: "butlast (tl s) = [] \<or>
            (\<not> is_quote (hd (butlast (tl s))) \<and> \<not> is_quote (last (butlast (tl s))))"
    by (auto simp: bare_or_wrapped_def split: if_splits)
  from True e have q: "is_quote (hd s)" by auto
  define m where "m = butlast (tl s)"
  from two_ends[OF l] e have s: "s = hd s # m @ [hd s]" by (simp add: m_def)
  have sp: "spec_strip_layer s = m"
    using l e q by (simp add: spec_strip_layer_def m_def)
  from t have m: "m = [] \<or> (\<not> is_quote (hd m) \<and> \<not> is_quote (last m))" by (simp add: m_def)
  have "trim_ends (CHR 0x27) (trim_ends CHR ''`'' (hd s # m @ [hd s])) = m"
    using q m by (auto simp: trim_ends_def is_quote_def Let_def)
  with s sp show ?thesis by simp
qed

text \<open>
  C5, as amended. \<open>getUsernameAndAddressFromDefiner\<close> fails, with the invalid-definer
  error, exactly when the definer does not hold exactly one \<open>@\<close>. Otherwise it cuts the
  definer at that \<open>@\<close> and takes from each half a leading backtick, a trailing backtick,
  a leading single quote and a trailing single quote, each if present and each on its
  own: on every definer it returns what \<open>trims_parse_definer\<close> returns. When both halves
  are bare or wrapped, that is the parsing the spec words: one layer of matching quotes
  is stripped. The four examples of the spec evaluate as it says.
\<close>

theorem definer_parsing:
  "getUsernameAndAddressFromDefiner d = trims_parse_definer d \<and>
   (getUsernameAndAddressFromDefiner d = Inl InvalidDefiner \<longleftrightarrow> count_list d CHR ''@'' \<noteq> 1) \<and>
   (bare_or_wrapped (takeWhile (\<lambda>c. c \<noteq> CHR ''@'') d) \<and>
    bare_or_wrapped (tl (dropWhile (\<lambda>c. c \<noteq> CHR ''@'') d)) \<longrightarrow>
      getUsernameAndAddressFromDefiner d = spec_parse_definer d) \<and>
   getUsernameAndAddressFromDefiner ''`u`@`h`'' = Inr (''u'', ''h'') \<and>
   getUsernameAndAddressFromDefiner ([CHR 0x27] @ ''u'' @ [CHR 0x27] @ ''@'' @ [CHR 0x27] @ ''h'' @ [CHR 0x27])
     = Inr (''u'', ''h'') \<and>
   getUsernameAndAddressFromDefiner ''u@h'' = Inr (''u'', ''h'') \<and>
   getUsernameAndAddressFromDefiner ''u'' = Inl InvalidDefiner"
proof -
  have a: "bare_or_wrapped (takeWhile (\<lambda>c. c \<noteq> CHR ''@'') d) \<and>
    bare_or_wrapped (tl (dropWhile (\<lambda>c. c \<noteq> CHR ''@'') d)) \<longrightarrow>
      getUsernameAndAddressFromDefiner d = spec_parse_definer d"
    by (simp add: parse_eq_trims trims_parse_definer_def spec_parse_definer_def
        trims_bare_or_wrapped)
  have e1: "getUsernameAndAddressFromDefiner ''`u`@`h`'' = Inr (''u'', ''h'')"
    by (simp add: parse_eq_trims trims_parse_definer_def trim_ends_def)
  have e2: "getUsernameAndAddressFromDefiner
      ([CHR 0x27] @ ''u'' @ [CHR 0x27] @ ''@'' @ [CHR 0x27] @ ''h'' @ [CHR 0x27]) = Inr (''u'', ''h'')"
    by (simp add: parse_eq_trims trims_parse_definer_def trim_ends_def)
  have e3: "getUsernameAndAddressFromDefiner ''u@h'' = Inr (''u'', ''h'')"
    by (simp add: parse_eq_trims trims_parse_definer_def trim_ends_def)
  have e4: "getUsernameAndAddressFromDefiner ''u'' = Inl InvalidDefiner"
    by (simp add: parse_eq_trims trims_parse_definer_def)
  from parse_eq_trims[of d] getUsernameAndAddressFromDefiner_fails_iff[of d] a e1 e2 e3 e4
  show ?thesis by blast
qed

theorem definer_parsing_witness:
  "bare_or_wrapped (takeWhile (\<lambda>c. c \<noteq> CHR ''@'') ''`root`@localhost'') \<and>
   bare_or_wrapped (tl (dropWhile (\<lambda>c. c \<noteq> CHR ''@'') ''`root`@localhost'')) \<and>
   getUsernameAndAddressFromDefiner ''`root`@localhost'' = spec_parse_definer ''`root`@localhost'' \<and>
   spec_parse_definer ''`root`@localhost'' = Inr (''root'', ''localhost'')"
  using definer_parsing[of "''`root`@localhost''"]
  by (simp add: bare_or_wrapped_def is_quote_def spec_parse_definer_def spec_strip_layer_def
      trims_parse_definer_def trim_ends_def)

text \<open>
  C5, as stated, has the parsing strip matching quotes only. In the definer whose user
  half is a backtick and \<open>u\<close> and whose host half is \<open>h\<close> and a single quote, no half
  is wrapped in a matching pair, and the code still returns \<open>u\<close> and \<open>h\<close>; from the user
  half backtick, \<open>x\<close>, single quote, backtick it takes the single quote inside the
  matching backticks as well.
\<close>

theorem definer_parsing_unmatched_quotes:
  "getUsernameAndAddressFromDefiner (''`u@h'' @ [CHR 0x27]) = Inr (''u'', ''h'') \<and>
   spec_parse_definer (''`u@h'' @ [CHR 0x27]) = Inr (''`u'', ''h'' @ [CHR 0x27]) \<and>
   getUsernameAndAddressFromDefiner (''`x'' @ [CHR 0x27] @ ''`@h'') = Inr (''x'', ''h'') \<and>
   spec_parse_definer (''`x'' @ [CHR 0x27] @ ''`@h'') = Inr (''x'' @ [CHR 0x27], ''h'')"
  by (simp add: parse_eq_trims trims_parse_definer_def trim_ends_def spec_parse_definer_def
      spec_strip_layer_def is_quote_def)


section \<open>Events after an execution and at catalog load\<close>

text \<open>
  C6. For an event with \<open>HasExecuteAt\<close>, \<open>updateEventAfterExecution\<close> returns
  \<open>ended = True\<close> and leaves \<open>nextExecutionAt\<close> as it was. With
  \<open>OnCompletionPreserve\<close> it calls \<open>UpdateEvent\<close> of the database with the definition
  whose status is the disabled one and whose \<open>LastExecuted\<close> is the execution time, and
  returns the error and the catalog that call gives; otherwise it calls \<open>DropEvent\<close>
  with the event's name and leaves the event as it was.
\<close>

theorem one_shot_event_ends:
  "HasExecuteAt (eventDetails e) \<Longrightarrow>
   fst (fst (updateEventAfterExecution gnet now e db executionTime s)) = True \<and>
   nextExecutionAt (fst (snd (updateEventAfterExecution gnet now e db executionTime s)))
     = nextExecutionAt e \<and>
   updateEventAfterExecution gnet now e db executionTime s =
     (if OnCompletionPreserve (eventDetails e)
      then ((True, fst (UpdateEvent db (Name (eventDetails e))
                    ((eventDetails e)\<lparr>Status := EventStatus_String EventStatus_Disable,
                                       LastExecuted := executionTime\<rparr>) s)),
            e\<lparr>eventDetails := (eventDetails e)\<lparr>Status := EventStatus_String EventStatus_Disable,
                                                LastExecuted := executionTime\<rparr>\<rparr>,
            snd (UpdateEvent db (Name (eventDetails e))
                    ((eventDetails e)\<lparr>Status := EventStatus_String EventStatus_Disable,
                                       LastExecuted := executionTime\<rparr>) s))
      else ((True, fst (DropEvent db (Name (eventDetails e)) s)), e,
            snd (DropEvent db (Name (eventDetails e)) s)))"
  by (auto simp: updateEventAfterExecution_def updateEventAfterExecution_store_def Let_def
      split: prod.splits)


theorem one_shot_event_ends_witness:
  "HasExecuteAt (eventDetails ((example_event ''db'' ''ev'' 5)
      \<lparr>eventDetails := (example_details ''ev'')\<lparr>HasExecuteAt := True\<rparr>\<rparr>)) \<and>
   updateEventAfterExecution (example_gnet False) 7
      ((example_event ''db'' ''ev'' 5)
         \<lparr>eventDetails := (example_details ''ev'')\<lparr>HasExecuteAt := True\<rparr>\<rparr>)
      (memory_db ''db'') 6 [(''ev'', (example_details ''ev'')\<lparr>HasExecuteAt := True\<rparr>)]
    = ((True, None),
       (example_event ''db'' ''ev'' 5)
         \<lparr>eventDetails := (example_details ''ev'')\<lparr>HasExecuteAt := True\<rparr>\<rparr>,
       [])"
  using one_shot_event_ends
    [of "(example_event ''db'' ''ev'' 5)
           \<lparr>eventDetails := (example_details ''ev'')\<lparr>HasExecuteAt := True\<rparr>\<rparr>"
        "example_gnet False" 7 "memory_db ''db''" 6
        "[(''ev'', (example_details ''ev'')\<lparr>HasExecuteAt := True\<rparr>)]"]
  by (simp add: example_event_def example_details_def memory_db_def example_gnet_def)

text \<open>
  C7, as amended. \<open>newEnabledEventFromEventDetails\<close> on a definition: with a status
  other than the enabled one it returns no event and leaves the catalog as it is. With
  the enabled status: when the schedule computation returns an error, it returns that
  error and no event and leaves the catalog as it is, whatever the ended flag; when the
  computation succeeds, the schedule has not ended and the definer parses to a user and
  an address, it returns the event with that user and address; when the definer does not
  parse, it returns the parse error and no event and leaves the catalog as it is; when
  the computation succeeds with an ended schedule and \<open>OnCompletionPreserve\<close>, it calls
  \<open>UpdateEvent\<close> with the status set to the disabled one and returns the error and the
  catalog of that call; when it succeeds with an ended schedule and no
  \<open>OnCompletionPreserve\<close>, it calls \<open>DropEvent\<close> and returns the error and the catalog
  of that call.
\<close>

theorem catalog_load_cases:
  "(Status ed \<noteq> EventStatus_String EventStatus_Enable \<longrightarrow>
      newEnabledEventFromEventDetails gnet db ed curTime s = ((None, False, None), s)) \<and>
   (Status ed = EventStatus_String EventStatus_Enable \<and> gnet ed curTime = (next, ended, Some err) \<longrightarrow>
      newEnabledEventFromEventDetails gnet db ed curTime s = ((None, False, Some err), s)) \<and>
   (Status ed = EventStatus_String EventStatus_Enable \<and> gnet ed curTime = (next, False, None) \<and>
    getUsernameAndAddressFromDefiner (Definer ed) = Inr (usr, addr) \<longrightarrow>
      newEnabledEventFromEventDetails gnet db ed curTime s =
        ((Some \<lparr>edb = db, eventDetails = ed, nextExecutionAt = next,
                 username = usr, address = addr\<rparr>, True, None), s)) \<and>
   (Status ed = EventStatus_String EventStatus_Enable \<and> gnet ed curTime = (next, False, None) \<and>
    getUsernameAndAddressFromDefiner (Definer ed) = Inl err \<longrightarrow>
      newEnabledEventFromEventDetails gnet db ed curTime s = ((None, False, Some err), s)) \<and>
   (Status ed = EventStatus_String EventStatus_Enable \<and> gnet ed curTime = (next, True, None) \<and>
    OnCompletionPreserve ed \<longrightarrow>
      newEnabledEventFromEventDetails gnet db ed curTime s =
        ((None, False,
          fst (UpdateEvent db (Name ed) (ed\<lparr>Status := EventStatus_String EventStatus_Disable\<rparr>) s)),
         snd (UpdateEvent db (Name ed) (ed\<lparr>Status := EventStatus_String EventStatus_Disable\<rparr>) s))) \<and>
   (Status ed = EventStatus_String EventStatus_Enable \<and> gnet ed curTime = (next, True, None) \<and>
    \<not> OnCompletionPreserve ed \<longrightarrow>
      newEnabledEventFromEventDetails gnet db ed curTime s =
        ((None, False, fst (DropEvent db (Name ed) s)), snd (DropEvent db (Name ed) s)))"
  by (auto simp: newEnabledEventFromEventDetails_def Let_def split: prod.splits)

theorem catalog_load_cases_witness:
  "newEnabledEventFromEventDetails (example_gnet False) (memory_db ''db'')
     ((example_details ''ev'')\<lparr>Status := EventStatus_String EventStatus_Disable\<rparr>) 7 []
     = ((None, False, None), []) \<and>
   newEnabledEventFromEventDetails example_failing_gnet (memory_db ''db'')
     (example_details ''ev'') 7 [(''ev'', example_details ''ev'')]
     = ((None, False, Some (CollaboratorError ''schedule'')), [(''ev'', example_details ''ev'')]) \<and>
   newEnabledEventFromEventDetails (example_gnet False) (memory_db ''db'')
     (example_details ''ev'') 7 [(''ev'', example_details ''ev'')]
     = ((Some (example_event ''db'' ''ev'' 8), True, None), [(''ev'', example_details ''ev'')]) \<and>
   newEnabledEventFromEventDetails (example_gnet False) (memory_db ''db'')
     ((example_details ''ev'')\<lparr>Definer := ''root''\<rparr>) 7 []
     = ((None, False, Some InvalidDefiner), []) \<and>
   newEnabledEventFromEventDetails (example_gnet True) (memory_db ''db'')
     ((example_details ''ev'')\<lparr>OnCompletionPreserve := True\<rparr>) 7
     [(''ev'', (example_details ''ev'')\<lparr>OnCompletionPreserve := True\<rparr>)]
     = ((None, False, None),
        [(''ev'', (example_details ''ev'')
            \<lparr>Status := EventStatus_String EventStatus_Disable, OnCompletionPreserve := True\<rparr>)]) \<and>
   newEnabledEventFromEventDetails (example_gnet True) (memory_db ''db'')
     (example_details ''ev'') 7 [(''ev'', example_details ''ev'')]
     = ((None, False, None), [])"
proof -
  have d: "getUsernameAndAddressFromDefiner ''`root`@`localhost`'' = Inr (''root'', ''localhost'')"
    by (simp add: parse_eq_trims trims_parse_definer_def trim_ends_def)
  have i: "getUsernameAndAddressFromDefiner ''root'' = Inl InvalidDefiner"
    by (simp add: getUsernameAndAddressFromDefiner_fails_iff)
  show ?thesis
    using
      catalog_load_cases
        [where ed = "(example_details ''ev'')\<lparr>Status := EventStatus_String EventStatus_Disable\<rparr>"
           and gnet = "example_gnet False" and db = "memory_db ''db''"
           and curTime = 7 and s = "[]"]
      catalog_load_cases
        [where ed = "example_details ''ev''" and gnet = "example_failing_gnet"
           and curTime = 7 and ?next = 0 and ended = True and err = "CollaboratorError ''schedule''"
           and db = "memory_db ''db''" and s = "[(''ev'', example_details ''ev'')]"]
      catalog_load_cases
        [where ed = "example_details ''ev''" and gnet = "example_gnet False"
           and curTime = 7 and ?next = 8 and usr = "''root''" and addr = "''localhost''"
           and db = "memory_db ''db''" and s = "[(''ev'', example_details ''ev'')]"]
      catalog_load_cases
        [where ed = "(example_details ''ev'')\<lparr>Definer := ''root''\<rparr>" and gnet = "example_gnet False"
           and curTime = 7 and ?next = 8 and err = InvalidDefiner
           and db = "memory_db ''db''" and s = "[]"]
      catalog_load_cases
        [where ed = "(example_details ''ev'')\<lparr>OnCompletionPreserve := True\<rparr>"
           and gnet = "example_gnet True" and curTime = 7 and ?next = 8
           and db = "memory_db ''db''"
           and s = "[(''ev'', (example_details ''ev'')\<lparr>OnCompletionPreserve := True\<rparr>)]"]
      catalog_load_cases
        [where ed = "example_details ''ev''" and gnet = "example_gnet True"
           and curTime = 7 and ?next = 8 and db = "memory_db ''db''"
           and s = "[(''ev'', example_details ''ev'')]"]
    by (simp add: example_event_def example_details_def memory_db_def example_gnet_def
        example_failing_gnet_def d i)
qed

text \<open>
  C7, as stated, promises an event for every enabled definition whose schedule has not
  ended, and a stored or dropped definition for every enabled one whose schedule has.
  For the enabled definition with the definer \<open>root\<close>, which holds no \<open>@\<close>, and a
  schedule that has not ended, the function returns the invalid-definer error and no
  event. For the enabled definition with \<open>OnCompletionPreserve\<close> whose schedule
  computation reports ended beside an error, it returns the error and leaves the
  definition in the catalog as it was.
\<close>

theorem catalog_load_invalid_definer:
  "Status ((example_details ''ev'')\<lparr>Definer := ''root''\<rparr>) = EventStatus_String EventStatus_Enable \<and>
   example_gnet False ((example_details ''ev'')\<lparr>Definer := ''root''\<rparr>) 7
     = (8, False, None) \<and>
   newEnabledEventFromEventDetails (example_gnet False) (memory_db ''db'')
     ((example_details ''ev'')\<lparr>Definer := ''root''\<rparr>) 7
     [(''ev'', (example_details ''ev'')\<lparr>Definer := ''root''\<rparr>)]
   = ((None, False, Some InvalidDefiner),
      [(''ev'', (example_details ''ev'')\<lparr>Definer := ''root''\<rparr>)]) \<and>
   Status ((example_details ''ev'')\<lparr>OnCompletionPreserve := True\<rparr>)
     = EventStatus_String EventStatus_Enable \<and>
   OnCompletionPreserve ((example_details ''ev'')\<lparr>OnCompletionPreserve := True\<rparr>) \<and>
   fst (snd (example_failing_gnet ((example_details ''ev'')\<lparr>OnCompletionPreserve := True\<rparr>) 7)) \<and>
   newEnabledEventFromEventDetails example_failing_gnet (memory_db ''db'')
     ((example_details ''ev'')\<lparr>OnCompletionPreserve := True\<rparr>) 7
     [(''ev'', (example_details ''ev'')\<lparr>OnCompletionPreserve := True\<rparr>)]
   = ((None, False, Some (CollaboratorError ''schedule'')),
      [(''ev'', (example_details ''ev'')\<lparr>OnCompletionPreserve := True\<rparr>)])"
proof -
  have "getUsernameAndAddressFromDefiner ''root'' = Inl InvalidDefiner"
    by (simp add: getUsernameAndAddressFromDefiner_fails_iff)
  then show ?thesis
    by (simp add: newEnabledEventFromEventDetails_def example_details_def example_gnet_def
        example_failing_gnet_def)
qed


section \<open>The list of enabled events: order and removal\<close>

text \<open>
  The comparison that the sort closure makes: the difference of two times, in seconds,
  is below \<open>1\<close> exactly when it is below one second's worth of nanoseconds.
\<close>

lemma Seconds_less_1_iff: "Seconds d < 1 \<longleftrightarrow> d < 1000000000"
proof (cases "d < 0")
  case True
  have "d sdiv Second \<le> 0" using True
    by (simp add: signed_divide_int_def Second_def sgn_if div_int_pos_iff)
  moreover have "d smod Second \<le> 0" using True
    by (simp add: signed_modulo_int_def Second_def sgn_if)
  ultimately have "Seconds d \<le> 0"
    by (simp add: Seconds_def divide_nonpos_pos add_nonpos_nonpos)
  with True show ?thesis by simp
next
  case False
  then have d: "d sdiv Second = d div 1000000000" "d smod Second = d mod 1000000000"
    by (auto simp: signed_divide_int_def signed_modulo_int_def Second_def sgn_if)
  show ?thesis
  proof (cases "d < 1000000000")
    case True
    with False show ?thesis by (simp add: Seconds_def d)
  next
    case ge: False
    then have "1 \<le> d div 1000000000" by (simp add: pos_imp_zdiv_pos_iff)
    then have "1 \<le> real_of_int (d div 1000000000)" by linarith
    moreover have "0 \<le> real_of_int (d mod 1000000000) / 1000000000" by simp
    ultimately have "1 \<le> Seconds d" unfolding Seconds_def d by linarith
    with ge show ?thesis by simp
  qed
qed

lemmas sort_simps = SliceStable_def stable_func_def stable_blocks.simps stable_merge.simps
  insertionSort_func_def insertionSort_outer.simps insertionSort_inner.simps Swap_def

lemmas example_simps = example_event_def memory_db_def example_details_def name_def

lemmas time_simps = less_nextExecutionAt_def Seconds_less_1_iff Sub_def minDuration_def
  maxDuration_def

text \<open>
  C1. The claim is that after every sequence of operations the list is in
  non-decreasing order of \<open>nextExecutionAt\<close>, with the earliest entry at the head. The
  sort closure answers \<open>less\<close> whenever the first time is less than one second after the
  second one: adding an event at time \<open>0\<close> and then an event half a second later to the
  empty list puts the later event first, and \<open>getNextExecutionTime\<close> reports the later
  time.
\<close>

theorem add_breaks_time_order:
  "eventsList (add (add (newEnabledEventsList []) (example_event ''db'' ''a'' 0))
                 (example_event ''db'' ''b'' 500000000))
     = [example_event ''db'' ''b'' 500000000, example_event ''db'' ''a'' 0] \<and>
   getNextExecutionTime (add (add (newEnabledEventsList []) (example_event ''db'' ''a'' 0))
                 (example_event ''db'' ''b'' 500000000)) = (500000000, True)"
  by (simp add: add_def newEnabledEventsList_def getNextExecutionTime_def sort_simps time_simps
      example_simps)

text \<open>
  C8. The claim is that \<open>add\<close> of an event whose name is not in the list, followed by
  \<open>remove\<close> of that name, gives the list back. Adding \<open>y\<close> and then \<open>x\<close>, both at
  second 5, gives the list \<open>[x, y]\<close>; adding \<open>e\<close> at second 10, whose name differs
  from both, sorts the whole list again and exchanges the two, so that after \<open>remove\<close>
  of \<open>e\<close> the list is \<open>[y, x]\<close>.
\<close>

theorem add_remove_reorders:
  "eventsList (add (add (newEnabledEventsList []) (example_event ''db'' ''y'' 5000000000))
                 (example_event ''db'' ''x'' 5000000000))
     = [example_event ''db'' ''x'' 5000000000, example_event ''db'' ''y'' 5000000000] \<and>
   name (example_event ''db'' ''e'' 10000000000) \<noteq> name (example_event ''db'' ''x'' 5000000000) \<and>
   name (example_event ''db'' ''e'' 10000000000) \<noteq> name (example_event ''db'' ''y'' 5000000000) \<and>
   eventsList (enabledEventsList_remove
        (add (add (add (newEnabledEventsList []) (example_event ''db'' ''y'' 5000000000))
                 (example_event ''db'' ''x'' 5000000000))
             (example_event ''db'' ''e'' 10000000000))
        (name (example_event ''db'' ''e'' 10000000000)))
     = [example_event ''db'' ''y'' 5000000000, example_event ''db'' ''x'' 5000000000]"
  by (simp add: add_def newEnabledEventsList_def enabledEventsList_remove_def remove_loop.simps
      sort_simps time_simps example_simps)

text \<open>
  C4. The claim is that \<open>removeSchemaEvents\<close> leaves no entry of the database. On the
  list of \<open>a\<close> and \<open>b\<close> of database \<open>db\<close> followed by \<open>c\<close> of another database it
  removes \<open>a\<close> and keeps \<open>b\<close>, whose place the loop has already passed; on the list
  of \<open>a\<close> and \<open>b\<close> alone the second match slices beyond the shortened list and the
  call panics.
\<close>

theorem removeSchemaEvents_skips_entry:
  "enabledEventsList_removeSchemaEvents
     \<lparr>eventsList = [example_event ''db'' ''a'' 1, example_event ''db'' ''b'' 2,
                    example_event ''other'' ''c'' 3]\<rparr> ''db''
     = Inr \<lparr>eventsList = [example_event ''db'' ''b'' 2, example_event ''other'' ''c'' 3]\<rparr> \<and>
   enabledEventsList_removeSchemaEvents
     \<lparr>eventsList = [example_event ''db'' ''a'' 1, example_event ''db'' ''b'' 2]\<rparr> ''db''
     = Inl (SliceBoundsOutOfRange 2 1)"
  by (simp add: enabledEventsList_removeSchemaEvents_def removeSchemaEvents_loop.simps
      example_simps)

text \<open>
  C10. \<open>removeSchemaEvents\<close> of the running set sets \<open>reAdd\<close> to \<open>False\<close> exactly for
  the keys of the status map that begin with the database name and a dot, while
  \<open>removeSchemaEvents\<close> of the list compares the database name of an entry for
  equality. The databases \<open>db\<close> and \<open>db.sub\<close> are distinct; for the running event
  \<open>ev\<close> of \<open>db.sub\<close>, clearing \<open>db\<close> in the running set turns its \<open>reAdd\<close> flag
  from \<open>True\<close> to \<open>False\<close>, and removing \<open>db\<close> from the list that holds the event
  leaves it there.
\<close>

theorem prefix_match_and_name_match:
  "getReAdd (runningEventsStatus_removeSchemaEvents r db) k =
     (if snd (getStatus r k) \<and> HasPrefix k (db @ ''.'') then (False, True) else getReAdd r k) \<and>
   enabledEventsList_removeSchemaEvents \<lparr>eventsList = [e]\<rparr> db =
     Inr \<lparr>eventsList = (if EventDatabase_Name (edb e) = db then [] else [e])\<rparr> \<and>
   ''db'' \<noteq> ''db.sub'' \<and>
   EventDatabase_Name (edb (example_event ''db.sub'' ''ev'' 0)) = ''db.sub'' \<and>
   getReAdd (update newRunningEventsStatus (name (example_event ''db.sub'' ''ev'' 0)) True True)
     (name (example_event ''db.sub'' ''ev'' 0)) = (True, True) \<and>
   getReAdd (runningEventsStatus_removeSchemaEvents
       (update newRunningEventsStatus (name (example_event ''db.sub'' ''ev'' 0)) True True) ''db'')
     (name (example_event ''db.sub'' ''ev'' 0)) = (False, True) \<and>
   enabledEventsList_removeSchemaEvents \<lparr>eventsList = [example_event ''db.sub'' ''ev'' 0]\<rparr> ''db''
     = Inr \<lparr>eventsList = [example_event ''db.sub'' ''ev'' 0]\<rparr>"
proof -
  have a: "getReAdd (runningEventsStatus_removeSchemaEvents r db) k =
     (if snd (getStatus r k) \<and> HasPrefix k (db @ ''.'') then (False, True) else getReAdd r k)"
    by (auto simp: getReAdd_def getStatus_def removeSchemaEvents_reAdd split: option.splits)
  have b: "enabledEventsList_removeSchemaEvents \<lparr>eventsList = [e]\<rparr> db =
     Inr \<lparr>eventsList = (if EventDatabase_Name (edb e) = db then [] else [e])\<rparr>"
    by (simp add: enabledEventsList_removeSchemaEvents_def removeSchemaEvents_loop.simps)
  have c: "getReAdd (runningEventsStatus_removeSchemaEvents
       (update newRunningEventsStatus (name (example_event ''db.sub'' ''ev'' 0)) True True) ''db'')
     (name (example_event ''db.sub'' ''ev'' 0)) = (False, True)"
    by (simp add: runningEventsStatus_removeSchemaEvents_def removeSchemaEvents_body_def
        update_def newRunningEventsStatus_def getReAdd_def HasPrefix_def index_map_def
        example_simps)
  have d: "getReAdd (update newRunningEventsStatus (name (example_event ''db.sub'' ''ev'' 0)) True True)
     (name (example_event ''db.sub'' ''ev'' 0)) = (True, True)"
    by (simp add: update_def newRunningEventsStatus_def getReAdd_def example_simps)
  have e: "enabledEventsList_removeSchemaEvents \<lparr>eventsList = [example_event ''db.sub'' ''ev'' 0]\<rparr> ''db''
     = Inr \<lparr>eventsList = [example_event ''db.sub'' ''ev'' 0]\<rparr>"
    by (simp add: enabledEventsList_removeSchemaEvents_def removeSchemaEvents_loop.simps
      example_simps)
  have f: "EventDatabase_Name (edb (example_event ''db.sub'' ''ev'' 0)) = ''db.sub''"
    by (simp add: example_simps)
  from a b c d e f show ?thesis by simp
qed

end
